theory Spec2Isabelle
  imports Complex_Main "HOL-Library.Monad_Syntax"
begin

section \<open>The arithmetic of the source\<close>

text \<open>
  \<^verbatim>\<open>Cheby1Lowpass::filter\<close> takes and returns a \<^verbatim>\<open>float\<close>, keeps its two buffers
  as \<^verbatim>\<open>float\<close> arrays and multiplies by \<^verbatim>\<open>double\<close> coefficients: every buffer
  element is promoted to \<^verbatim>\<open>double\<close> before it is used, the products, the
  difference and the sum are \<^verbatim>\<open>double\<close> operations, and every store into a buffer
  converts back to \<^verbatim>\<open>float\<close>.  The model takes these operations as a record, so
  that what is proved for every such record holds for IEEE arithmetic with its
  rounding, its infinities and its NaNs as well: \<open>'f\<close> is the type of the samples
  (\<^verbatim>\<open>float\<close>), \<open>'d\<close> the type the arithmetic is done in (\<^verbatim>\<open>double\<close>),
  \<open>to_double\<close> and \<open>to_float\<close> are the two conversions, \<open>dlit\<close> gives the value of
  a decimal literal, \<open>dmul\<close>, \<open>dadd\<close> and \<open>dsub\<close> are \<^verbatim>\<open>*\<close>, \<^verbatim>\<open>+\<close> and \<^verbatim>\<open>-\<close>
  on \<^verbatim>\<open>double\<close>, and \<open>fzero\<close> is \<^verbatim>\<open>0.0f\<close>.
\<close>

record ('f, 'd) arith =
  to_double :: "'f \<Rightarrow> 'd"
  to_float :: "'d \<Rightarrow> 'f"
  dlit :: "real \<Rightarrow> 'd"
  dmul :: "'d \<Rightarrow> 'd \<Rightarrow> 'd"
  dadd :: "'d \<Rightarrow> 'd \<Rightarrow> 'd"
  dsub :: "'d \<Rightarrow> 'd \<Rightarrow> 'd"
  fzero :: "'f"

text \<open>
  Exact arithmetic: both number types are the reals and no operation rounds.  It is
  what the recurrence computes when rounding is left out, and it is what the source
  computes on the inputs where none of its operations rounds (a history of zeros, the
  coefficient 1.0).  On other inputs the source rounds and differs from it.
\<close>

definition exact :: "(real, real) arith" where
  "exact = \<lparr>to_double = (\<lambda>v. v), to_float = (\<lambda>v. v), dlit = (\<lambda>v. v),
     dmul = (\<lambda>u v. u * v), dadd = (\<lambda>u v. u + v), dsub = (\<lambda>u v. u - v), fzero = 0\<rparr>"





text \<open>
  An arithmetic with a not-a-number: \<open>None\<close> stands for a NaN, and an operation with a
  NaN among its operands gives a NaN.
\<close>

definition nan_op :: "(real \<Rightarrow> real \<Rightarrow> real) \<Rightarrow> real option \<Rightarrow> real option \<Rightarrow> real option" where
  "nan_op f u v =
     (case u of None \<Rightarrow> None | Some p \<Rightarrow> (case v of None \<Rightarrow> None | Some q \<Rightarrow> Some (f p q)))"

definition with_nan :: "(real option, real option) arith" where
  "with_nan = \<lparr>to_double = (\<lambda>v. v), to_float = (\<lambda>v. v), dlit = Some,
     dmul = nan_op (\<lambda>u v. u * v), dadd = nan_op (\<lambda>u v. u + v), dsub = nan_op (\<lambda>u v. u - v),
     fzero = Some 0\<rparr>"

section \<open>The coefficient arrays\<close>

text \<open>
  \<^verbatim>\<open>const double a[] = { 0.000416599204407, 0.00166639681763, 0.00249959522644,
                       0.00166639681763, 0.000416599204407 };\<close>
  \<^verbatim>\<open>const double b[] = { 1.0, -3.18063854887, 3.86119434899, -2.11215535511,
                       0.438265142262 };\<close>
  The arrays \<^verbatim>\<open>a\<close> and \<^verbatim>\<open>b\<close> of the anonymous namespace, with the decimal
  literals of the source.
\<close>

definition a_arr :: "real list" where
  "a_arr = [0.000416599204407, 0.00166639681763, 0.00249959522644,
            0.00166639681763, 0.000416599204407]"

definition b_arr :: "real list" where
  "b_arr = [1.0, -3.18063854887, 3.86119434899, -2.11215535511, 0.438265142262]"

section \<open>The filter object\<close>

text \<open>
  Modelled from the spec: the class declaration (\<^verbatim>\<open>cheby1lowpass.h\<close>) is not among
  the sources.  The spec gives the members: two buffers \<^verbatim>\<open>_x\<close> and \<^verbatim>\<open>_y\<close> of
  \<^verbatim>\<open>_size\<close> = order + 1 = 5 samples each and the write index \<^verbatim>\<open>_n\<close>, an integer.
  The buffers hold samples (the constructor fills them with \<^verbatim>\<open>0.0f\<close>).  The index is
  an unbounded integer here: in the states the claims are about it stays in \<open>[0, 5)\<close>,
  far from any overflow.
\<close>

record 'f Cheby1Lowpass =
  buf_x :: "'f list"
  buf_y :: "'f list"
  idx_n :: int

text \<open>
  Modelled from the spec: the constant \<^verbatim>\<open>_size\<close> of the missing class declaration,
  which the spec fixes at order + 1 = 5.
\<close>

definition size_c :: int where
  "size_c = 5"

text \<open>
  A C++ array has no bounds check: an index outside the array is undefined
  behaviour.  The model makes it the failure \<open>None\<close>.
\<close>

definition rd :: "'v list \<Rightarrow> int \<Rightarrow> 'v option" where
  "rd xs i = (if 0 \<le> i \<and> i < int (length xs) then Some (xs ! nat i) else None)"

definition wr :: "'v list \<Rightarrow> int \<Rightarrow> 'v \<Rightarrow> 'v list option" where
  "wr xs i v = (if 0 \<le> i \<and> i < int (length xs) then Some (xs[nat i := v]) else None)"

text \<open>The operator \<^verbatim>\<open>%\<close> of C++ on \<^verbatim>\<open>int\<close>: the remainder of the division that
  truncates towards zero, with the sign of the dividend.\<close>

definition c_rem :: "int \<Rightarrow> int \<Rightarrow> int" where
  "c_rem u v = sgn u * (\<bar>u\<bar> mod \<bar>v\<bar>)"

text \<open>\<^verbatim>\<open>Cheby1Lowpass::Cheby1Lowpass(): _x{0.0f}, _y{0.0f}, _n{0} { }\<close>\<close>

definition Cheby1Lowpass_ctor :: "('f, 'd) arith \<Rightarrow> 'f Cheby1Lowpass" where
  "Cheby1Lowpass_ctor ar =
     \<lparr>buf_x = replicate (nat size_c) (fzero ar), buf_y = replicate (nat size_c) (fzero ar),
      idx_n = 0\<rparr>"

text \<open>
  The body of the loop, for one \<open>i\<close>:
  \<^verbatim>\<open>_y[_n] += b[i]*_x[(_n - i + _size) % _size] - a[i]*_y[(_n - i + _size) % _size];\<close>
\<close>

definition loop_body :: "('f, 'd) arith \<Rightarrow> int \<Rightarrow> 'f Cheby1Lowpass \<Rightarrow> 'f Cheby1Lowpass option" where
  "loop_body ar i st = do {
     bi \<leftarrow> rd b_arr i;
     xk \<leftarrow> rd (buf_x st) (c_rem (idx_n st - i + size_c) size_c);
     ai \<leftarrow> rd a_arr i;
     yk \<leftarrow> rd (buf_y st) (c_rem (idx_n st - i + size_c) size_c);
     yn \<leftarrow> rd (buf_y st) (idx_n st);
     ys \<leftarrow> wr (buf_y st) (idx_n st)
             (to_float ar (dadd ar (to_double ar yn)
                (dsub ar (dmul ar (dlit ar bi) (to_double ar xk))
                         (dmul ar (dlit ar ai) (to_double ar yk)))));
     Some (st\<lparr>buf_y := ys\<rparr>)
   }"

text \<open>\<^verbatim>\<open>for (int i = 1; i < _size; ++i) { ... }\<close>, entered with the current \<open>i\<close>.\<close>

function filter_loop :: "('f, 'd) arith \<Rightarrow> int \<Rightarrow> 'f Cheby1Lowpass \<Rightarrow> 'f Cheby1Lowpass option" where
  "filter_loop ar i st =
     (if i < size_c
      then (case loop_body ar i st of None \<Rightarrow> None | Some st' \<Rightarrow> filter_loop ar (i + 1) st')
      else Some st)"
  by pat_completeness auto
termination
  by (relation "measure (\<lambda>(ar, i, st). nat (size_c - i))") auto

declare filter_loop.simps [simp del]

text \<open>
  \<^verbatim>\<open>float Cheby1Lowpass::filter(float sample) {
      _x[_n] = sample;
      _y[_n] = b[0]*_x[_n];
      for (...) { ... }
      float result = _y[_n];
      _n = (_n + 1) % _size;
      return result;
  }\<close>
  The result is the returned sample together with the object after the call.
\<close>

definition Cheby1Lowpass_filter ::
  "('f, 'd) arith \<Rightarrow> 'f Cheby1Lowpass \<Rightarrow> 'f \<Rightarrow> ('f \<times> 'f Cheby1Lowpass) option" where
  "Cheby1Lowpass_filter ar st sample = do {
     xs \<leftarrow> wr (buf_x st) (idx_n st) sample;
     b0 \<leftarrow> rd b_arr 0;
     xn \<leftarrow> rd xs (idx_n st);
     ys \<leftarrow> wr (buf_y st) (idx_n st) (to_float ar (dmul ar (dlit ar b0) (to_double ar xn)));
     st' \<leftarrow> filter_loop ar 1 (st\<lparr>buf_x := xs, buf_y := ys\<rparr>);
     result \<leftarrow> rd (buf_y st') (idx_n st');
     Some (result, st'\<lparr>idx_n := c_rem (idx_n st' + 1) size_c\<rparr>)
   }"

section \<open>Auxiliary notions of the proofs\<close>

text \<open>
  The states the class can be in: both buffers have \<^verbatim>\<open>_size\<close> elements, as their
  array types say, and the index is in \<open>[0, _size)\<close>.
\<close>

definition valid_state :: "'f Cheby1Lowpass \<Rightarrow> bool" where
  "valid_state st \<longleftrightarrow>
     int (length (buf_x st)) = size_c \<and> int (length (buf_y st)) = size_c \<and>
     0 \<le> idx_n st \<and> idx_n st < size_c"

text \<open>
  The loop in closed form.  \<open>tap ar st i\<close> is the term
  \<^verbatim>\<open>b[i]*_x[(_n - i + _size) % _size] - a[i]*_y[(_n - i + _size) % _size]\<close> of the
  iteration \<open>i\<close>, \<open>accum\<close> is the compound assignment that adds it to \<^verbatim>\<open>_y[_n]\<close>,
  and \<open>filter_value\<close> is the value the call returns: the product \<^verbatim>\<open>b[0]*_x[_n]\<close>
  with the four terms added one after the other.
\<close>

definition tap :: "('f, 'd) arith \<Rightarrow> 'f Cheby1Lowpass \<Rightarrow> int \<Rightarrow> 'd" where
  "tap ar st i =
     dsub ar (dmul ar (dlit ar (b_arr ! nat i))
                (to_double ar (buf_x st ! nat (c_rem (idx_n st - i + size_c) size_c))))
             (dmul ar (dlit ar (a_arr ! nat i))
                (to_double ar (buf_y st ! nat (c_rem (idx_n st - i + size_c) size_c))))"

definition accum :: "('f, 'd) arith \<Rightarrow> 'f Cheby1Lowpass \<Rightarrow> 'f \<Rightarrow> int \<Rightarrow> 'f" where
  "accum ar st acc i = to_float ar (dadd ar (to_double ar acc) (tap ar st i))"

definition filter_value :: "('f, 'd) arith \<Rightarrow> 'f Cheby1Lowpass \<Rightarrow> 'f \<Rightarrow> 'f" where
  "filter_value ar st sample =
     foldl (accum ar (st\<lparr>buf_x := (buf_x st)[nat (idx_n st) := sample]\<rparr>))
       (to_float ar (dmul ar (dlit ar (b_arr ! 0)) (to_double ar sample))) [1..size_c - 1]"

text \<open>
  The filter step as the specification lists it, with the operations of the source in
  the order of the source: write the sample into \<open>x[n]\<close>; start \<open>y[n]\<close> with
  \<open>first_term\<close>, the product \<^verbatim>\<open>b[0]*_x[_n]\<close> stored as a sample; for \<open>i = 1..4\<close> in turn
  add (\<open>add_term\<close>: promote \<open>y[n]\<close>, add, store as a sample) the term \<open>hist_term\<close>,
  \<open>b[i] * x[(n - i + 5) mod 5] - a[i] * y[(n - i + 5) mod 5]\<close>; store the value into
  \<open>y[n]\<close>, advance \<open>n\<close> to \<open>(n + 1) mod 5\<close> and return the value.
\<close>

definition first_term :: "('f, 'd) arith \<Rightarrow> 'f \<Rightarrow> 'f" where
  "first_term ar xv = to_float ar (dmul ar (dlit ar (b_arr ! 0)) (to_double ar xv))"

definition hist_term :: "('f, 'd) arith \<Rightarrow> nat \<Rightarrow> 'f \<Rightarrow> 'f \<Rightarrow> 'd" where
  "hist_term ar i xv yv =
     dsub ar (dmul ar (dlit ar (b_arr ! i)) (to_double ar xv))
             (dmul ar (dlit ar (a_arr ! i)) (to_double ar yv))"

definition add_term :: "('f, 'd) arith \<Rightarrow> 'f \<Rightarrow> 'd \<Rightarrow> 'f" where
  "add_term ar acc t = to_float ar (dadd ar (to_double ar acc) t)"

definition filter_steps ::
  "('f, 'd) arith \<Rightarrow> 'f Cheby1Lowpass \<Rightarrow> 'f \<Rightarrow> 'f \<times> 'f Cheby1Lowpass" where
  "filter_steps ar st s =
     (let n = idx_n st;
          x = (buf_x st)[nat n := s];
          y = buf_y st;
          t = (\<lambda>i. hist_term ar i (x ! nat ((n - int i + 5) mod 5)) (y ! nat ((n - int i + 5) mod 5)));
          v = add_term ar (add_term ar (add_term ar (add_term ar
                (first_term ar (x ! nat n)) (t 1)) (t 2)) (t 3)) (t 4)
      in (v, \<lparr>buf_x = x, buf_y = y[nat n := v], idx_n = (n + 1) mod 5\<rparr>))"

text \<open>
  The filter step as the specification words it, over exact arithmetic: write the
  sample into \<open>x[n]\<close>, compute
  \<open>y[n] = b[0] * x[n] + (\<Sum>i = 1..4. b[i] * x[(n - i + 5) mod 5] - a[i] * y[(n - i + 5) mod 5])\<close>,
  store it into \<open>y[n]\<close>, advance \<open>n\<close> to \<open>(n + 1) mod 5\<close> and return the value.
\<close>

definition filter_spec :: "real Cheby1Lowpass \<Rightarrow> real \<Rightarrow> real \<times> real Cheby1Lowpass" where
  "filter_spec st s =
     (let n = idx_n st;
          x = (buf_x st)[nat n := s];
          y = buf_y st;
          v = b_arr ! 0 * x ! nat n +
              (\<Sum>i = 1..4. b_arr ! i * x ! nat ((n - int i + 5) mod 5)
                            - a_arr ! i * y ! nat ((n - int i + 5) mod 5))
      in (v, \<lparr>buf_x = x, buf_y = y[nat n := v], idx_n = (n + 1) mod 5\<rparr>))"

text \<open>A state in the middle of a run, for concrete instances of the theorems.\<close>

definition example_state :: "real Cheby1Lowpass" where
  "example_state = \<lparr>buf_x = [1, 2, 3, 4, 5], buf_y = [5, 4, 3, 2, 1], idx_n = 2\<rparr>"

section \<open>Callers: sample sequences and several filter objects\<close>

text \<open>
  The caller feeds the samples of a signal one at a time: \<open>filter_seq\<close> calls
  \<^verbatim>\<open>filter\<close> on each sample of a list in turn, on the object the previous call left,
  and collects the returned samples.
\<close>

fun filter_seq ::
  "('f, 'd) arith \<Rightarrow> 'f Cheby1Lowpass \<Rightarrow> 'f list \<Rightarrow> ('f list \<times> 'f Cheby1Lowpass) option" where
  "filter_seq ar st [] = Some ([], st)"
| "filter_seq ar st (s # ss) =
     (case Cheby1Lowpass_filter ar st s of
        None \<Rightarrow> None
      | Some (r, st') \<Rightarrow>
          (case filter_seq ar st' ss of
             None \<Rightarrow> None
           | Some (rs, st'') \<Rightarrow> Some (r # rs, st'')))"

text \<open>
  Several filter objects live in a store, each at its own address.  The member function
  reads and writes the members of \<^verbatim>\<open>this\<close> only, and the coefficient arrays are
  \<^verbatim>\<open>const\<close>: a call on the object at address \<open>p\<close> replaces that object in the store.
\<close>

type_synonym 'f store = "nat \<Rightarrow> 'f Cheby1Lowpass option"

definition call_filter ::
  "('f, 'd) arith \<Rightarrow> 'f store \<Rightarrow> nat \<Rightarrow> 'f \<Rightarrow> ('f \<times> 'f store) option" where
  "call_filter ar h p sample =
     (case h p of
        None \<Rightarrow> None
      | Some st \<Rightarrow>
          (case Cheby1Lowpass_filter ar st sample of
             None \<Rightarrow> None
           | Some (r, st') \<Rightarrow> Some (r, h(p \<mapsto> st'))))"

text \<open>A schedule is a list of calls, each naming the object and the sample; the calls
  on different objects interleave in any order.  Every returned sample is tagged with
  the object that returned it.\<close>

fun run_calls ::
  "('f, 'd) arith \<Rightarrow> 'f store \<Rightarrow> (nat \<times> 'f) list \<Rightarrow> ((nat \<times> 'f) list \<times> 'f store) option" where
  "run_calls ar h [] = Some ([], h)"
| "run_calls ar h ((p, s) # cs) =
     (case call_filter ar h p s of
        None \<Rightarrow> None
      | Some (r, h') \<Rightarrow>
          (case run_calls ar h' cs of
             None \<Rightarrow> None
           | Some (rs, h'') \<Rightarrow> Some ((p, r) # rs, h'')))"

definition of_object :: "nat \<Rightarrow> (nat \<times> 'f) list \<Rightarrow> 'f list" where
  "of_object p cs = map snd (filter (\<lambda>c. fst c = p) cs)"

text \<open>Two objects in a store: one in the middle of a run, one freshly constructed.\<close>

definition example_store :: "real store" where
  "example_store = (\<lambda>p. None)(0 \<mapsto> example_state, 1 \<mapsto> Cheby1Lowpass_ctor exact)"

text \<open>The object whose buffers hold zeros only, with its index at \<open>n\<close>.\<close>

definition zero_state :: "int \<Rightarrow> real Cheby1Lowpass" where
  "zero_state n = \<lparr>buf_x = [0, 0, 0, 0, 0], buf_y = [0, 0, 0, 0, 0], idx_n = n\<rparr>"

text \<open>Two freshly constructed objects in a store, and a schedule that interleaves
  calls on them with the same samples for each.\<close>

definition fresh_pair :: "real store" where
  "fresh_pair = (\<lambda>p. None)(0 \<mapsto> Cheby1Lowpass_ctor exact, 1 \<mapsto> Cheby1Lowpass_ctor exact)"

definition example_calls :: "(nat \<times> real) list" where
  "example_calls = [(0, 1), (1, 1), (0, 2), (0, 3), (1, 2), (1, 3)]"

section \<open>The step response\<close>

text \<open>
  The response to a constant input \<open>c\<close>: \<open>step_response c k\<close> is what the call number
  \<open>k + 1\<close> returns when a freshly constructed filter is fed \<open>c\<close> again and again, in
  exact arithmetic.
\<close>

definition step_response :: "real \<Rightarrow> nat \<Rightarrow> real" where
  "step_response c k =
     (case filter_seq exact (Cheby1Lowpass_ctor exact) (replicate (Suc k) c) of
        None \<Rightarrow> 0
      | Some (outs, st) \<Rightarrow> last outs)"

text \<open>
  The level at which the recurrence of the source is stationary under the input 1:
  \<open>y = (\<Sum>b) - (a[1] + a[2] + a[3] + a[4]) * y\<close>.  The element \<open>a[0]\<close> takes no part in it.
\<close>

definition dc_level :: real where
  "dc_level = sum_list b_arr / (1 + (\<Sum>i = 1..4. a_arr ! i))"

text \<open>
  \<open>hist_y st j\<close> is the output returned \<open>j\<close> calls ago, as the next call will read it.  A
  state is settled within \<open>B\<close> when all its inputs are \<open>c\<close> and the output of \<open>j\<close> calls ago
  is within \<open>2 ^ j * B\<close> of the stationary level, for \<open>j = 1..4\<close>.
\<close>

definition hist_y :: "real Cheby1Lowpass \<Rightarrow> int \<Rightarrow> real" where
  "hist_y st j = buf_y st ! nat ((idx_n st - j) mod 5)"

definition settled :: "real \<Rightarrow> real \<Rightarrow> real Cheby1Lowpass \<Rightarrow> bool" where
  "settled c B st \<longleftrightarrow>
     valid_state st \<and> buf_x st = [c, c, c, c, c] \<and>
     \<bar>hist_y st 1 - c * dc_level\<bar> \<le> 2 * B \<and> \<bar>hist_y st 2 - c * dc_level\<bar> \<le> 4 * B \<and>
     \<bar>hist_y st 3 - c * dc_level\<bar> \<le> 8 * B \<and> \<bar>hist_y st 4 - c * dc_level\<bar> \<le> 16 * B"

section \<open>Properties\<close>

subsection \<open>The loop and the call in closed form\<close>

text \<open>
  In a valid state the history index of every iteration is a slot of the buffers other
  than the slot \<open>n\<close> being written, so the loop reads what was in the buffers before.
\<close>

lemma history_index:
  assumes "0 \<le> n" "n < size_c" "1 \<le> i" "i < size_c"
  shows "0 \<le> c_rem (n - i + size_c) size_c" "c_rem (n - i + size_c) size_c < size_c"
    "c_rem (n - i + size_c) size_c \<noteq> n" "c_rem (n - i + size_c) size_c = (n - i) mod size_c"
proof -
  have pos: "0 < n - i + size_c" using assms by simp
  then have eq: "c_rem (n - i + size_c) size_c = (n - i + size_c) mod size_c"
    using assms by (simp add: c_rem_def size_c_def)
  show "0 \<le> c_rem (n - i + size_c) size_c" using eq by (simp add: size_c_def)
  show "c_rem (n - i + size_c) size_c < size_c" using eq by (simp add: size_c_def)
  show "c_rem (n - i + size_c) size_c = (n - i) mod size_c" using eq by simp
  show "c_rem (n - i + size_c) size_c \<noteq> n"
  proof
    assume "c_rem (n - i + size_c) size_c = n"
    then have "(n - i + size_c) mod size_c = n mod size_c" using eq assms by simp
    then have "(n - i) mod size_c = n mod size_c" by simp
    then have "size_c dvd i"
      by (simp add: mod_eq_dvd_iff)
    then show False using assms by (auto simp: size_c_def dvd_def)
  qed
qed

lemma loop_body_valid:
  assumes "valid_state st" "1 \<le> i" "i < size_c"
  shows "loop_body ar i st =
    Some (st\<lparr>buf_y := (buf_y st)[nat (idx_n st) := accum ar st (buf_y st ! nat (idx_n st)) i]\<rparr>)"
  using assms history_index(1,2)[of "idx_n st" i]
  by (simp add: loop_body_def rd_def wr_def valid_state_def accum_def tap_def a_arr_def b_arr_def size_c_def)

lemma tap_frame:
  assumes "valid_state st" "1 \<le> i" "i < size_c"
  shows "tap ar (st\<lparr>buf_y := (buf_y st)[nat (idx_n st) := v]\<rparr>) i = tap ar st i"
  using assms history_index(1,3)[of "idx_n st" i]
  by (simp add: tap_def valid_state_def nat_eq_iff)

lemma valid_state_upd_y:
  "valid_state st \<Longrightarrow> valid_state (st\<lparr>buf_y := (buf_y st)[k := v]\<rparr>)"
  by (simp add: valid_state_def)

lemma valid_stateD:
  assumes "valid_state st"
  shows "nat (idx_n st) < length (buf_x st)" "nat (idx_n st) < length (buf_y st)"
    "0 \<le> idx_n st" "idx_n st < size_c" "length (buf_x st) = 5" "length (buf_y st) = 5"
    "idx_n st < int (length (buf_x st))" "idx_n st < int (length (buf_y st))"
  using assms unfolding valid_state_def size_c_def by linarith+

lemma foldl_agree:
  "(\<And>acc j. j \<in> set js \<Longrightarrow> f acc j = g acc j) \<Longrightarrow> foldl f acc0 js = foldl g acc0 js"
  by (induction js arbitrary: acc0) simp_all

lemma accum_frame:
  assumes "valid_state st" "1 \<le> i" "i < size_c"
  shows "accum ar (st\<lparr>buf_y := (buf_y st)[nat (idx_n st) := v]\<rparr>) acc i = accum ar st acc i"
  using assms by (simp add: accum_def tap_frame)

lemma filter_loop_valid:
  "valid_state st \<Longrightarrow> 1 \<le> i \<Longrightarrow> i \<le> size_c \<Longrightarrow>
   filter_loop ar i st =
     Some (st\<lparr>buf_y := (buf_y st)[nat (idx_n st) :=
        foldl (accum ar st) (buf_y st ! nat (idx_n st)) [i..size_c - 1]]\<rparr>)"
proof (induction ar i st rule: filter_loop.induct)
  case (1 ar i st)
  show ?case
  proof (cases "i < size_c")
    case True
    let ?n = "nat (idx_n st)"
    let ?v = "accum ar st (buf_y st ! ?n) i"
    let ?st' = "st\<lparr>buf_y := (buf_y st)[?n := ?v]\<rparr>"
    have body: "loop_body ar i st = Some ?st'"
      using "1.prems" True by (simp add: loop_body_valid)
    have v': "valid_state ?st'" using "1.prems" by (simp add: valid_state_upd_y)
    have n_lt: "?n < length (buf_y st)" using "1.prems"(1) by (rule valid_stateD)
    have agree: "foldl (accum ar ?st') ?v [i + 1..size_c - 1] = foldl (accum ar st) ?v [i + 1..size_c - 1]"
      using "1.prems" by (intro foldl_agree accum_frame) auto
    have "filter_loop ar i st = filter_loop ar (i + 1) ?st'"
      using True body by (simp add: filter_loop.simps[of ar i st])
    also have "\<dots> = Some (?st'\<lparr>buf_y := (buf_y ?st')[nat (idx_n ?st') :=
        foldl (accum ar ?st') (buf_y ?st' ! nat (idx_n ?st')) [i + 1..size_c - 1]]\<rparr>)"
      using "1.IH"[OF True body v'] "1.prems" True by simp
    also have "\<dots> = Some (st\<lparr>buf_y := (buf_y st)[?n := foldl (accum ar st) ?v [i + 1..size_c - 1]]\<rparr>)"
      using n_lt agree by simp
    also have "foldl (accum ar st) ?v [i + 1..size_c - 1] = foldl (accum ar st) (buf_y st ! ?n) [i..size_c - 1]"
      using True by (simp add: upto_rec1[of i "size_c - 1"])
    finally show ?thesis .
  next
    case False
    then show ?thesis by (simp add: filter_loop.simps[of ar i st])
  qed
qed

text \<open>
  A call in a valid state, in any arithmetic: it returns \<open>filter_value\<close>, stores the
  sample and that value at the index and advances the index.
\<close>

lemma filter_valid:
  assumes "valid_state st"
  shows "Cheby1Lowpass_filter ar st sample =
    Some (filter_value ar st sample,
          st\<lparr>buf_x := (buf_x st)[nat (idx_n st) := sample],
             buf_y := (buf_y st)[nat (idx_n st) := filter_value ar st sample],
             idx_n := (idx_n st + 1) mod size_c\<rparr>)"
proof -
  let ?n = "nat (idx_n st)"
  let ?y0 = "to_float ar (dmul ar (dlit ar (b_arr ! 0)) (to_double ar sample))"
  let ?st1 = "st\<lparr>buf_x := (buf_x st)[?n := sample], buf_y := (buf_y st)[?n := ?y0]\<rparr>"
  let ?stx = "st\<lparr>buf_x := (buf_x st)[?n := sample]\<rparr>"
  have len: "?n < length (buf_x st)" "?n < length (buf_y st)" "0 \<le> idx_n st"
    "idx_n st < int (length (buf_x st))" "idx_n st < int (length (buf_y st))"
    using assms by (rule valid_stateD)+
  have v1: "valid_state ?st1" "valid_state ?stx" using assms by (simp_all add: valid_state_def)
  have st1: "?st1 = ?stx\<lparr>buf_y := (buf_y ?stx)[nat (idx_n ?stx) := ?y0]\<rparr>" by simp
  have agree: "foldl (accum ar ?st1) ?y0 [1..size_c - 1] = foldl (accum ar ?stx) ?y0 [1..size_c - 1]"
    unfolding st1 using v1(2) by (intro foldl_agree accum_frame) auto
  have loop: "filter_loop ar 1 ?st1 =
     Some (?st1\<lparr>buf_y := (buf_y ?st1)[?n := filter_value ar st sample]\<rparr>)"
    using filter_loop_valid[OF v1(1), of 1 ar] len agree
    by (simp add: filter_value_def size_c_def)
  have rem: "c_rem (idx_n st + 1) size_c = (idx_n st + 1) mod size_c"
    using len by (simp add: c_rem_def size_c_def)
  show ?thesis
    using len loop rem
    by (simp add: Cheby1Lowpass_filter_def rd_def wr_def b_arr_def)
qed

lemma upto_taps: "[1..size_c - 1] = [1, 2, 3, 4]"
  by (simp add: size_c_def upto_rec1)

lemma tap_exact:
  assumes "0 \<le> idx_n st" "idx_n st < size_c" "1 \<le> i" "i < size_c"
  shows "tap exact st i =
     b_arr ! nat i * buf_x st ! nat ((idx_n st - i) mod 5)
   - a_arr ! nat i * buf_y st ! nat ((idx_n st - i) mod 5)"
  using history_index(4)[OF assms] by (simp add: tap_def exact_def size_c_def)

lemma sum_taps: "(\<Sum>i = Suc 0..4. f i) = f (Suc 0) + f 2 + f 3 + f 4"
proof -
  have "{Suc 0..4} = {Suc 0, 2, 3, 4}" by auto
  then show ?thesis by (simp add: add.assoc)
qed

lemma filter_value_exact:
  assumes "valid_state st"
  shows "filter_value exact st s = fst (filter_spec st s)"
proof -
  let ?stx = "st\<lparr>buf_x := (buf_x st)[nat (idx_n st) := s]\<rparr>"
  note v = valid_stateD[OF assms]
  have taps: "tap exact ?stx i =
     b_arr ! nat i * buf_x ?stx ! nat ((idx_n st - i) mod 5)
   - a_arr ! nat i * buf_y st ! nat ((idx_n st - i) mod 5)" if "1 \<le> i" "i < size_c" for i
    using tap_exact[of ?stx i] v that by simp
  have acc: "accum exact ?stx acc i = acc + tap exact ?stx i" for acc i
    by (simp add: accum_def exact_def)
  have "filter_value exact st s =
      b_arr ! 0 * s + tap exact ?stx 1 + tap exact ?stx 2 + tap exact ?stx 3 + tap exact ?stx 4"
    by (simp add: filter_value_def upto_taps acc) (simp add: exact_def)
  also have "\<dots> = fst (filter_spec st s)"
    using v(1) by (simp add: taps size_c_def filter_spec_def Let_def sum_taps)
  finally show ?thesis .
qed

subsection \<open>The filter step in the steps of the specification\<close>

lemma tap_hist_term:
  assumes "0 \<le> idx_n st" "idx_n st < size_c" "1 \<le> i" "i < size_c"
  shows "tap ar st i =
     hist_term ar (nat i) (buf_x st ! nat ((idx_n st - i) mod 5)) (buf_y st ! nat ((idx_n st - i) mod 5))"
  using history_index(4)[OF assms] by (simp add: tap_def hist_term_def size_c_def)

lemma filter_value_steps:
  assumes "valid_state st"
  shows "filter_value ar st s = fst (filter_steps ar st s)"
proof -
  let ?stx = "st\<lparr>buf_x := (buf_x st)[nat (idx_n st) := s]\<rparr>"
  note v = valid_stateD[OF assms]
  have taps: "tap ar ?stx i =
     hist_term ar (nat i) (buf_x ?stx ! nat ((idx_n st - i) mod 5))
       (buf_y st ! nat ((idx_n st - i) mod 5))" if "1 \<le> i" "i < size_c" for i
    using tap_hist_term[of ?stx i ar] v that by simp
  have "filter_value ar st s =
      add_term ar (add_term ar (add_term ar (add_term ar (first_term ar s)
        (tap ar ?stx 1)) (tap ar ?stx 2)) (tap ar ?stx 3)) (tap ar ?stx 4)"
    by (simp add: filter_value_def upto_taps accum_def add_term_def first_term_def)
  also have "\<dots> = fst (filter_steps ar st s)"
    using v(1) by (simp add: taps size_c_def filter_steps_def Let_def)
  finally show ?thesis .
qed

lemma filter_steps_valid:
  assumes "valid_state st"
  shows "Cheby1Lowpass_filter ar st s = Some (filter_steps ar st s)"
proof -
  have "snd (filter_steps ar st s) =
      st\<lparr>buf_x := (buf_x st)[nat (idx_n st) := s],
         buf_y := (buf_y st)[nat (idx_n st) := fst (filter_steps ar st s)],
         idx_n := (idx_n st + 1) mod size_c\<rparr>"
    by (simp add: filter_steps_def Let_def size_c_def)
  then show ?thesis
    using filter_valid[OF assms, where ar = ar and sample = s] filter_value_steps[OF assms, of ar s]
    by (simp add: prod_eq_iff)
qed


text \<open>Without rounding the steps give the closed formula of the specification.\<close>

lemma filter_exact_spec:
  assumes "valid_state st"
  shows "Cheby1Lowpass_filter exact st s = Some (filter_spec st s)"
proof -
  have "snd (filter_spec st s) =
      st\<lparr>buf_x := (buf_x st)[nat (idx_n st) := s],
         buf_y := (buf_y st)[nat (idx_n st) := fst (filter_spec st s)],
         idx_n := (idx_n st + 1) mod size_c\<rparr>"
    by (simp add: filter_spec_def Let_def size_c_def)
  then show ?thesis
    using filter_valid[OF assms, of exact s] filter_value_exact[OF assms, of s]
    by (simp add: prod_eq_iff)
qed

lemma example_state_valid: "valid_state example_state"
  by (simp add: valid_state_def example_state_def size_c_def)

subsection \<open>Rounding\<close>





































subsection \<open>The filter step and the recurrence of the specification\<close>




subsection \<open>Sequences of calls\<close>

lemma filter_valid_post:
  assumes "valid_state st"
  shows "valid_state (st\<lparr>buf_x := (buf_x st)[k := u], buf_y := (buf_y st)[k' := v],
                          idx_n := (idx_n st + 1) mod size_c\<rparr>)"
  using assms by (simp add: valid_state_def size_c_def)

lemma ctor_explicit:
  "Cheby1Lowpass_ctor ar =
     \<lparr>buf_x = [fzero ar, fzero ar, fzero ar, fzero ar, fzero ar],
      buf_y = [fzero ar, fzero ar, fzero ar, fzero ar, fzero ar], idx_n = 0\<rparr>"
  by (simp add: Cheby1Lowpass_ctor_def size_c_def numeral_eq_Suc)

lemma ctor_valid: "valid_state (Cheby1Lowpass_ctor ar)"
  by (simp add: ctor_explicit valid_state_def size_c_def)

lemma filter_seq_valid:
  "valid_state st \<Longrightarrow>
   \<exists>outs st'. filter_seq ar st ss = Some (outs, st') \<and> valid_state st' \<and>
      length outs = length ss \<and> idx_n st' = (idx_n st + int (length ss)) mod size_c"
proof (induction ss arbitrary: st)
  case Nil
  then show ?case using valid_stateD(3,4)[OF Nil] by simp
next
  case (Cons s ss)
  let ?st1 = "st\<lparr>buf_x := (buf_x st)[nat (idx_n st) := s],
             buf_y := (buf_y st)[nat (idx_n st) := filter_value ar st s],
             idx_n := (idx_n st + 1) mod size_c\<rparr>"
  have v1: "valid_state ?st1" using Cons.prems by (rule filter_valid_post)
  obtain outs st' where rest: "filter_seq ar ?st1 ss = Some (outs, st')" "valid_state st'"
    "length outs = length ss" "idx_n st' = (idx_n ?st1 + int (length ss)) mod size_c"
    using Cons.IH[OF v1] by blast
  have "idx_n st' = (idx_n st + int (length (s # ss))) mod size_c"
    using rest(4) by (simp add: mod_simps algebra_simps)
  then show ?case
    using rest filter_valid[OF Cons.prems, of ar s] by simp
qed

text \<open>What the slot at the index holds before a call does not matter to the call.\<close>

lemma filter_overwrites_slot:
  assumes "valid_state st"
  shows "Cheby1Lowpass_filter ar
           (st\<lparr>buf_x := (buf_x st)[nat (idx_n st) := u],
               buf_y := (buf_y st)[nat (idx_n st) := v]\<rparr>) s
       = Cheby1Lowpass_filter ar st s"
proof -
  let ?n = "nat (idx_n st)"
  let ?st' = "st\<lparr>buf_x := (buf_x st)[?n := u], buf_y := (buf_y st)[?n := v]\<rparr>"
  let ?stx = "st\<lparr>buf_x := (buf_x st)[?n := s]\<rparr>"
  have v': "valid_state ?st'" "valid_state ?stx" using assms by (simp_all add: valid_state_def)
  let ?y0 = "to_float ar (dmul ar (dlit ar (b_arr ! 0)) (to_double ar s))"
  have eq: "?st'\<lparr>buf_x := (buf_x ?st')[nat (idx_n ?st') := s]\<rparr>
      = ?stx\<lparr>buf_y := (buf_y ?stx)[nat (idx_n ?stx) := v]\<rparr>" by simp
  have agree: "foldl (accum ar (?stx\<lparr>buf_y := (buf_y ?stx)[nat (idx_n ?stx) := v]\<rparr>)) ?y0 [1..size_c - 1]
      = foldl (accum ar ?stx) ?y0 [1..size_c - 1]"
    using v'(2) by (intro foldl_agree accum_frame) auto
  have val: "filter_value ar ?st' s = filter_value ar st s"
    unfolding filter_value_def eq by (rule agree)
  show ?thesis
    by (simp add: filter_valid[OF v'(1)] filter_valid[OF assms] val)
qed

text \<open>Outside the valid states the model does fail: with the index out of the buffer
  the very first store of a call is out of bounds.\<close>

lemma filter_fails_outside:
  "idx_n st < 0 \<or> int (length (buf_x st)) \<le> idx_n st \<Longrightarrow> Cheby1Lowpass_filter ar st s = None"
  by (auto simp add: Cheby1Lowpass_filter_def wr_def)

subsection \<open>Totality and valid indices\<close>

text \<open>
  Claim C7.  \<^verbatim>\<open>filter\<close> is total: for every state with buffers of size 5 and index
  \<open>n\<close> in \<open>[0, 5)\<close> and every sample the call returns a value and a state, whatever the
  arithmetic does (the sample type and the operations are arbitrary, so a NaN or an
  infinity is a sample like any other); and every history index
  \<^verbatim>\<open>(_n - i + _size) % _size\<close> it computes, for \<open>i = 1..4\<close>, lies in \<open>[0, 5)\<close>, so no
  access is out of bounds.
\<close>

theorem filter_total:
  assumes "valid_state st"
  shows "(\<exists>r st'. Cheby1Lowpass_filter ar st sample = Some (r, st')) \<and>
         (\<forall>i. 1 \<le> i \<and> i < size_c \<longrightarrow>
            0 \<le> c_rem (idx_n st - i + size_c) size_c \<and>
            c_rem (idx_n st - i + size_c) size_c < size_c)"
  using filter_valid[OF assms, of ar sample] history_index(1,2)[OF valid_stateD(3,4)[OF assms]]
  by simp

text \<open>The theorem at a NaN: the first call on a fresh filter, with a NaN for the sample,
  returns (a NaN) and stores it in slot 0 of both buffers.\<close>

lemma nan_sample_returns_nan:
  "Cheby1Lowpass_filter with_nan (Cheby1Lowpass_ctor with_nan) None =
     Some (None, \<lparr>buf_x = [None, Some 0, Some 0, Some 0, Some 0],
                   buf_y = [None, Some 0, Some 0, Some 0, Some 0], idx_n = 1\<rparr>)"
proof -
  have "filter_value with_nan (Cheby1Lowpass_ctor with_nan) None = None"
    unfolding filter_value_def upto_taps
    by (simp add: accum_def tap_def ctor_explicit with_nan_def nan_op_def)
  then show ?thesis
    using filter_valid[where st = "Cheby1Lowpass_ctor with_nan" and ar = with_nan and sample = None,
        OF ctor_valid]
    by (simp add: ctor_explicit size_c_def) (simp add: with_nan_def)
qed

theorem filter_total_witness:
  "valid_state (Cheby1Lowpass_ctor with_nan) \<and>
   (\<exists>r st'. Cheby1Lowpass_filter with_nan (Cheby1Lowpass_ctor with_nan) None = Some (r, st')) \<and>
   0 \<le> c_rem (idx_n (Cheby1Lowpass_ctor with_nan) - 4 + size_c) size_c \<and>
   c_rem (idx_n (Cheby1Lowpass_ctor with_nan) - 4 + size_c) size_c < size_c"
proof -
  note t = filter_total[where st = "Cheby1Lowpass_ctor with_nan" and ar = with_nan
      and sample = None, OF ctor_valid]
  have i: "1 \<le> (4::int) \<and> 4 < size_c" by (simp add: size_c_def)
  show ?thesis
    using t[THEN conjunct1] t[THEN conjunct2, rule_format, of 4] i ctor_valid[of with_nan]
    by blast
qed

subsection \<open>What a call changes\<close>

text \<open>
  Claim C8.  A call \<open>filter(sample)\<close> on the object at address \<open>p\<close> changes that object
  only: every other object of the store is as before.  In the object it changes the
  \<open>x\<close> slot at the index \<open>n\<close> of before the call (to the sample), the \<open>y\<close> slot at that
  index (to the returned value) and the index itself; the lengths of the buffers and the
  other four slots of each buffer are as before.  The coefficient arrays are constants
  of the model, as they are \<^verbatim>\<open>const\<close> in the source, and the source performs no
  input or output.
\<close>

theorem filter_frame:
  assumes "h p = Some st" and "valid_state st"
  shows "\<exists>r st'. call_filter ar h p sample = Some (r, h(p \<mapsto> st')) \<and>
           st' = st\<lparr>buf_x := (buf_x st)[nat (idx_n st) := sample],
                    buf_y := (buf_y st)[nat (idx_n st) := r],
                    idx_n := (idx_n st + 1) mod size_c\<rparr> \<and>
           length (buf_x st') = length (buf_x st) \<and> length (buf_y st') = length (buf_y st) \<and>
           (\<forall>j. j \<noteq> nat (idx_n st) \<longrightarrow>
                buf_x st' ! j = buf_x st ! j \<and> buf_y st' ! j = buf_y st ! j) \<and>
           (\<forall>q. q \<noteq> p \<longrightarrow> (h(p \<mapsto> st')) q = h q)"
  using assms filter_valid[OF assms(2), of ar sample]
  by (simp add: call_filter_def)

theorem filter_frame_witness:
  "example_store 0 = Some example_state \<and> valid_state example_state \<and>
   (\<exists>r st'. call_filter exact example_store 0 7 = Some (r, example_store(0 \<mapsto> st')) \<and>
      buf_x st' = [1, 2, 7, 4, 5] \<and> buf_y st' = [5, 4, r, 2, 1] \<and> idx_n st' = 3 \<and>
      (example_store(0 \<mapsto> st')) 1 = Some (Cheby1Lowpass_ctor exact))"
proof -
  have h: "example_store 0 = Some example_state" by (simp add: example_store_def)
  obtain r st' where c: "call_filter exact example_store 0 7 = Some (r, example_store(0 \<mapsto> st'))"
    and st': "st' = example_state\<lparr>buf_x := (buf_x example_state)[nat (idx_n example_state) := 7],
                    buf_y := (buf_y example_state)[nat (idx_n example_state) := r],
                    idx_n := (idx_n example_state + 1) mod size_c\<rparr>"
    using filter_frame[where h = example_store and p = 0 and st = example_state
        and ar = exact and sample = 7, OF h example_state_valid] by blast
  have "buf_x st' = [1, 2, 7, 4, 5] \<and> buf_y st' = [5, 4, r, 2, 1] \<and> idx_n st' = 3"
    unfolding st' by (simp add: example_state_def size_c_def numeral_eq_Suc)
  moreover have "(example_store(0 \<mapsto> st')) 1 = Some (Cheby1Lowpass_ctor exact)"
    by (simp add: example_store_def)
  ultimately show ?thesis using h c example_state_valid by blast
qed

lemma filter_value_fresh:
  "filter_value exact (Cheby1Lowpass_ctor exact) s = s"
  unfolding filter_value_def upto_taps
  by (simp add: accum_def tap_def ctor_explicit c_rem_def size_c_def exact_def b_arr_def)

subsection \<open>The first call\<close>

text \<open>
  Claim C10.  On a freshly constructed filter the very first call \<open>filter(s)\<close> returns
  exactly \<open>s\<close>: the array that multiplies the inputs (\<^verbatim>\<open>b\<close> in the source) has first
  element 1.0 and every history slot holds zero.  (Exact arithmetic: every sample is a
  real number.)
\<close>

theorem first_call_returns_sample:
  "Cheby1Lowpass_filter exact (Cheby1Lowpass_ctor exact) s =
     Some (s, \<lparr>buf_x = [s, 0, 0, 0, 0], buf_y = [s, 0, 0, 0, 0], idx_n = 1\<rparr>)"
  using filter_valid[where st = "Cheby1Lowpass_ctor exact" and ar = exact and sample = s,
      OF ctor_valid]
  by (simp add: filter_value_fresh) (simp add: ctor_explicit exact_def size_c_def)

text \<open>
  Claim C2 says that the single call \<open>filter(1.0)\<close> on a freshly constructed filter
  returns 0.000416599204407.  The source returns 1.0: the value 0.000416599204407 is
  the first element of the array \<^verbatim>\<open>a\<close>, which multiplies past outputs, and the first
  element of \<^verbatim>\<open>b\<close> is 1.0.
\<close>

theorem unit_sample_returns_one:
  "Cheby1Lowpass_filter exact (Cheby1Lowpass_ctor exact) 1 =
     Some (1, \<lparr>buf_x = [1, 0, 0, 0, 0], buf_y = [1, 0, 0, 0, 0], idx_n = 1\<rparr>) \<and>
   map_option fst (Cheby1Lowpass_filter exact (Cheby1Lowpass_ctor exact) 1)
     \<noteq> Some 0.000416599204407"
  using filter_valid[where st = "Cheby1Lowpass_ctor exact" and ar = exact and sample = 1,
      OF ctor_valid]
  by (simp add: filter_value_fresh) (simp add: ctor_explicit exact_def size_c_def)

subsection \<open>The coefficient arrays\<close>

text \<open>
  Claim C3 says that the array whose elements multiply past outputs has first element
  1.0 and that the array whose elements multiply inputs holds the numerator taps of the
  Chebyshev design.  In the source the array that multiplies past outputs is \<^verbatim>\<open>a\<close>,
  whose first element is 0.000416599204407, and the array that multiplies the inputs is
  \<^verbatim>\<open>b\<close>, which begins with 1.0 and holds the denominator of the design: each term
  of the loop is \<open>b[i] * x[k] - a[i] * y[k]\<close>.
\<close>

theorem coefficient_arrays_swapped:
  "a_arr ! 0 = 0.000416599204407 \<and> a_arr ! 0 \<noteq> 1 \<and> b_arr ! 0 = 1 \<and>
   b_arr = [1, -3.18063854887, 3.86119434899, -2.11215535511, 0.438265142262] \<and>
   tap exact st i =
     b_arr ! nat i * buf_x st ! nat (c_rem (idx_n st - i + size_c) size_c)
   - a_arr ! nat i * buf_y st ! nat (c_rem (idx_n st - i + size_c) size_c)"
  by (simp add: tap_def exact_def) (simp add: a_arr_def b_arr_def)

subsection \<open>Zero input\<close>

lemma nth_same5: "k < 5 \<Longrightarrow> [c, c, c, c, c] ! k = c"
proof -
  assume "k < 5"
  then have "k = 0 \<or> k = 1 \<or> k = 2 \<or> k = 3 \<or> k = 4" by linarith
  then show ?thesis by auto
qed

lemma list_update_same5: "k < 5 \<Longrightarrow> [c, c, c, c, c][k := c] = [c, c, c, c, c]"
proof -
  assume "k < 5"
  then have "k = 0 \<or> k = 1 \<or> k = 2 \<or> k = 3 \<or> k = 4" by linarith
  then show ?thesis by (auto simp: eval_nat_numeral)
qed

lemma filter_zero_state:
  assumes "0 \<le> n" "n < 5"
  shows "Cheby1Lowpass_filter exact (zero_state n) 0 = Some (0, zero_state ((n + 1) mod 5))"
proof -
  have v: "valid_state (zero_state n)"
    using assms by (simp add: valid_state_def zero_state_def size_c_def)
  have k: "nat n < 5" using assms by simp
  have sel: "buf_x (zero_state n) = [0, 0, 0, 0, 0]" "buf_y (zero_state n) = [0, 0, 0, 0, 0]"
    "idx_n (zero_state n) = n"
    by (simp_all add: zero_state_def)
  have upd: "(buf_x (zero_state n))[nat (idx_n (zero_state n)) := 0] = [0, 0, 0, 0, 0]"
       "(buf_y (zero_state n))[nat (idx_n (zero_state n)) := 0] = [0, 0, 0, 0, 0]"
    by (simp_all only: sel list_update_same5[OF k, of 0])
  have stx: "zero_state n\<lparr>buf_x := [0, 0, 0, 0, 0]\<rparr> = zero_state n"
    by (simp add: zero_state_def)
  have taps: "tap exact (zero_state n) i = 0" if "1 \<le> i" "i < size_c" for i
  proof -
    have "nat (c_rem (n - i + size_c) size_c) < 5"
      using history_index(1,2)[of n i] assms that by (simp add: size_c_def)
    then show ?thesis by (simp add: tap_def exact_def[THEN arg_cong, of dsub]
          exact_def[THEN arg_cong, of dmul] exact_def[THEN arg_cong, of to_double] sel nth_same5)
  qed
  have acc: "accum exact st acc i = acc + tap exact st i" for st acc i
    by (simp add: accum_def exact_def)
  have val: "filter_value exact (zero_state n) 0 = 0"
    unfolding filter_value_def upto_taps upd stx
    by (simp add: acc taps size_c_def) (simp add: exact_def)
  have "Cheby1Lowpass_filter exact (zero_state n) 0 =
      Some (0, zero_state n\<lparr>buf_x := [0, 0, 0, 0, 0], buf_y := [0, 0, 0, 0, 0],
                             idx_n := (idx_n (zero_state n) + 1) mod size_c\<rparr>)"
    using filter_valid[OF v, of exact 0] unfolding val upd .
  then show ?thesis
    by (simp add: zero_state_def size_c_def)
qed

lemma filter_seq_zero_state:
  "0 \<le> n \<Longrightarrow> n < 5 \<Longrightarrow>
   filter_seq exact (zero_state n) (replicate k 0) =
     Some (replicate k 0, zero_state ((n + int k) mod 5))"
proof (induction k arbitrary: n)
  case 0
  then show ?case by simp
next
  case (Suc k)
  have "((n + 1) mod 5 + int k) mod 5 = (n + int (Suc k)) mod 5"
    by (simp add: mod_simps algebra_simps)
  then show ?case
    using Suc.IH[of "(n + 1) mod 5"] Suc.prems by (simp add: filter_zero_state)
qed

text \<open>
  Claim C4.  For every \<open>k\<close>, a freshly constructed filter on which \<open>filter(0.0)\<close> is
  called \<open>k\<close> times returns exactly 0.0 on every one of those calls, and its buffers hold
  zeros only afterwards.
\<close>

theorem zero_input_stays_zero:
  "filter_seq exact (Cheby1Lowpass_ctor exact) (replicate k 0) =
     Some (replicate k 0,
           \<lparr>buf_x = [0, 0, 0, 0, 0], buf_y = [0, 0, 0, 0, 0], idx_n = int k mod 5\<rparr>)"
proof -
  have "Cheby1Lowpass_ctor exact = zero_state 0"
    by (simp add: ctor_explicit zero_state_def exact_def)
  then show ?thesis
    using filter_seq_zero_state[of 0 k] by (simp add: zero_state_def)
qed

subsection \<open>The write index and the history slots\<close>

lemma length_5_explicit:
  "length ss = 5 \<Longrightarrow> \<exists>s1 s2 s3 s4 s5. ss = [s1, s2, s3, s4, s5]"
  by (auto simp: numeral_eq_Suc length_Suc_conv)

lemma valid_explicit:
  "0 \<le> n \<Longrightarrow> n < 5 \<Longrightarrow>
   valid_state \<lparr>buf_x = [x0, x1, x2, x3, x4], buf_y = [y0, y1, y2, y3, y4], idx_n = n\<rparr>"
  by (simp add: valid_state_def size_c_def)

lemma filter_explicit:
  assumes "0 \<le> n" "n < 5"
  shows "Cheby1Lowpass_filter ar
           \<lparr>buf_x = [x0, x1, x2, x3, x4], buf_y = [y0, y1, y2, y3, y4], idx_n = n\<rparr> s =
         Some (filter_value ar \<lparr>buf_x = [x0, x1, x2, x3, x4], buf_y = [y0, y1, y2, y3, y4], idx_n = n\<rparr> s,
           \<lparr>buf_x = [x0, x1, x2, x3, x4][nat n := s],
            buf_y = [y0, y1, y2, y3, y4][nat n :=
               filter_value ar \<lparr>buf_x = [x0, x1, x2, x3, x4], buf_y = [y0, y1, y2, y3, y4], idx_n = n\<rparr> s],
            idx_n = (n + 1) mod 5\<rparr>)"
  using filter_valid[OF valid_explicit[OF assms], where ar = ar and sample = s]
  by (simp add: size_c_def del: list_update.simps)

lemma five_calls:
  "\<exists>v1 v2 v3 v4 v5.
     filter_seq ar (Cheby1Lowpass_ctor ar) [s1, s2, s3, s4, s5] =
       Some ([v1, v2, v3, v4, v5],
             \<lparr>buf_x = [s1, s2, s3, s4, s5], buf_y = [v1, v2, v3, v4, v5], idx_n = 0\<rparr>)"
  by (simp add: ctor_explicit filter_explicit)

text \<open>
  Claim C5, as amended.  The write index is an integer in \<open>[0, 5)\<close> in every state
  reached from a freshly constructed filter by any sequence of calls (it is the number
  of calls modulo 5), so after exactly 5 calls it is back at 0, with the \<open>k\<close>-th call's
  sample and output in slot \<open>k - 1\<close> of the buffers.  The 6th call reads the history
  slots 4, 3, 2, 1 in this order: the value it returns is the product \<open>b[0] * s6\<close> to
  which the terms of the 5th, 4th, 3rd and 2nd call's sample and output are added in
  turn, so its oldest history slot (\<open>i = 4\<close>) is slot 1, written by the 2nd call.  Slot
  0, which the 1st call wrote, is overwritten by the 6th call with its own sample and
  output and never read: whatever it holds, the 6th call returns the same value and
  leaves the same state.
\<close>

theorem index_cycle_and_history:
  "(\<exists>outs st. filter_seq ar (Cheby1Lowpass_ctor ar) ss = Some (outs, st) \<and>
       0 \<le> idx_n st \<and> idx_n st < 5 \<and> idx_n st = int (length ss) mod 5) \<and>
   (length ss = 5 \<longrightarrow>
     (\<exists>outs st5. filter_seq ar (Cheby1Lowpass_ctor ar) ss = Some (outs, st5) \<and>
        idx_n st5 = 0 \<and> buf_x st5 = ss \<and> buf_y st5 = outs \<and>
        map (\<lambda>i. c_rem (idx_n st5 - i + size_c) size_c) [1..size_c - 1] = [4, 3, 2, 1] \<and>
        (\<forall>s6. let v6 = add_term ar (add_term ar (add_term ar (add_term ar
                            (first_term ar s6)
                            (hist_term ar 1 (ss ! 4) (outs ! 4)))
                            (hist_term ar 2 (ss ! 3) (outs ! 3)))
                            (hist_term ar 3 (ss ! 2) (outs ! 2)))
                            (hist_term ar 4 (ss ! 1) (outs ! 1))
              in Cheby1Lowpass_filter ar st5 s6 =
                   Some (v6, \<lparr>buf_x = ss[0 := s6], buf_y = outs[0 := v6], idx_n = 1\<rparr>)) \<and>
        (\<forall>u v s. Cheby1Lowpass_filter ar
                    (st5\<lparr>buf_x := (buf_x st5)[0 := u], buf_y := (buf_y st5)[0 := v]\<rparr>) s
                  = Cheby1Lowpass_filter ar st5 s)))"
proof (intro conjI impI)
  obtain outs st where run: "filter_seq ar (Cheby1Lowpass_ctor ar) ss = Some (outs, st)"
    and v: "valid_state st"
    and idx: "idx_n st = (idx_n (Cheby1Lowpass_ctor ar) + int (length ss)) mod size_c"
    using filter_seq_valid[where st = "Cheby1Lowpass_ctor ar" and ar = ar and ss = ss,
        OF ctor_valid] by blast
  have "idx_n st = int (length ss) mod 5"
    using idx by (simp add: ctor_explicit size_c_def)
  then show "\<exists>outs st. filter_seq ar (Cheby1Lowpass_ctor ar) ss = Some (outs, st) \<and>
       0 \<le> idx_n st \<and> idx_n st < 5 \<and> idx_n st = int (length ss) mod 5"
    using run by simp
next
  assume "length ss = 5"
  then obtain s1 s2 s3 s4 s5 where ss: "ss = [s1, s2, s3, s4, s5]"
    using length_5_explicit by blast
  obtain v1 v2 v3 v4 v5 where run:
    "filter_seq ar (Cheby1Lowpass_ctor ar) ss =
       Some ([v1, v2, v3, v4, v5],
             \<lparr>buf_x = [s1, s2, s3, s4, s5], buf_y = [v1, v2, v3, v4, v5], idx_n = 0\<rparr>)"
    unfolding ss using five_calls[of ar s1 s2 s3 s4 s5] by blast
  let ?st5 = "\<lparr>buf_x = [s1, s2, s3, s4, s5], buf_y = [v1, v2, v3, v4, v5], idx_n = 0\<rparr>"
  have v: "valid_state ?st5" by (rule valid_explicit) simp_all
  have slots: "map (\<lambda>i. c_rem (idx_n ?st5 - i + size_c) size_c) [1..size_c - 1] = [4, 3, 2, 1]"
    unfolding upto_taps by (simp add: c_rem_def size_c_def)
  have sixth: "let v6 = add_term ar (add_term ar (add_term ar (add_term ar
                            (first_term ar s6)
                            (hist_term ar 1 (ss ! 4) ([v1, v2, v3, v4, v5] ! 4)))
                            (hist_term ar 2 (ss ! 3) ([v1, v2, v3, v4, v5] ! 3)))
                            (hist_term ar 3 (ss ! 2) ([v1, v2, v3, v4, v5] ! 2)))
                            (hist_term ar 4 (ss ! 1) ([v1, v2, v3, v4, v5] ! 1))
              in Cheby1Lowpass_filter ar ?st5 s6 =
                   Some (v6, \<lparr>buf_x = ss[0 := s6], buf_y = [v1, v2, v3, v4, v5][0 := v6],
                              idx_n = 1\<rparr>)" for s6
    unfolding filter_steps_valid[OF v] ss
    by (simp add: filter_steps_def Let_def)
  have unread: "Cheby1Lowpass_filter ar
                    (?st5\<lparr>buf_x := (buf_x ?st5)[0 := u], buf_y := (buf_y ?st5)[0 := v]\<rparr>) s
                  = Cheby1Lowpass_filter ar ?st5 s" for u v s
    using filter_overwrites_slot[OF v, where ar = ar and u = u and v = v and s = s] by simp
  show "\<exists>outs st5. filter_seq ar (Cheby1Lowpass_ctor ar) ss = Some (outs, st5) \<and>
        idx_n st5 = 0 \<and> buf_x st5 = ss \<and> buf_y st5 = outs \<and>
        map (\<lambda>i. c_rem (idx_n st5 - i + size_c) size_c) [1..size_c - 1] = [4, 3, 2, 1] \<and>
        (\<forall>s6. let v6 = add_term ar (add_term ar (add_term ar (add_term ar
                            (first_term ar s6)
                            (hist_term ar 1 (ss ! 4) (outs ! 4)))
                            (hist_term ar 2 (ss ! 3) (outs ! 3)))
                            (hist_term ar 3 (ss ! 2) (outs ! 2)))
                            (hist_term ar 4 (ss ! 1) (outs ! 1))
              in Cheby1Lowpass_filter ar st5 s6 =
                   Some (v6, \<lparr>buf_x = ss[0 := s6], buf_y = outs[0 := v6], idx_n = 1\<rparr>)) \<and>
        (\<forall>u v s. Cheby1Lowpass_filter ar
                    (st5\<lparr>buf_x := (buf_x st5)[0 := u], buf_y := (buf_y st5)[0 := v]\<rparr>) s
                  = Cheby1Lowpass_filter ar st5 s)"
  proof (intro exI[of _ "[v1, v2, v3, v4, v5]"] exI[of _ ?st5] conjI)
    show "filter_seq ar (Cheby1Lowpass_ctor ar) ss = Some ([v1, v2, v3, v4, v5], ?st5)"
      by (rule run)
    show "idx_n ?st5 = 0" by simp
    show "buf_x ?st5 = ss" by (simp add: ss)
    show "buf_y ?st5 = [v1, v2, v3, v4, v5]" by simp
    show "map (\<lambda>i. c_rem (idx_n ?st5 - i + size_c) size_c) [1..size_c - 1] = [4, 3, 2, 1]"
      by (rule slots)
    show "\<forall>s6. let v6 = add_term ar (add_term ar (add_term ar (add_term ar
                            (first_term ar s6)
                            (hist_term ar 1 (ss ! 4) ([v1, v2, v3, v4, v5] ! 4)))
                            (hist_term ar 2 (ss ! 3) ([v1, v2, v3, v4, v5] ! 3)))
                            (hist_term ar 3 (ss ! 2) ([v1, v2, v3, v4, v5] ! 2)))
                            (hist_term ar 4 (ss ! 1) ([v1, v2, v3, v4, v5] ! 1))
              in Cheby1Lowpass_filter ar ?st5 s6 =
                   Some (v6, \<lparr>buf_x = ss[0 := s6], buf_y = [v1, v2, v3, v4, v5][0 := v6],
                              idx_n = 1\<rparr>)"
      using sixth by (rule allI)
    show "\<forall>u v s. Cheby1Lowpass_filter ar
                    (?st5\<lparr>buf_x := (buf_x ?st5)[0 := u], buf_y := (buf_y ?st5)[0 := v]\<rparr>) s
                  = Cheby1Lowpass_filter ar ?st5 s"
      using unread by blast
  qed
qed

theorem index_cycle_and_history_witness:
  "length [1, 2, 3, 4, 5::real] = 5 \<and>
   (\<exists>outs st5. filter_seq exact (Cheby1Lowpass_ctor exact) [1, 2, 3, 4, 5] = Some (outs, st5) \<and>
        idx_n st5 = 0 \<and> buf_x st5 = [1, 2, 3, 4, 5] \<and> buf_y st5 = outs \<and>
        map (\<lambda>i. c_rem (idx_n st5 - i + size_c) size_c) [1..size_c - 1] = [4, 3, 2, 1] \<and>
        (\<forall>s6. let v6 = add_term exact (add_term exact (add_term exact (add_term exact
                            (first_term exact s6)
                            (hist_term exact 1 ([1, 2, 3, 4, 5] ! 4) (outs ! 4)))
                            (hist_term exact 2 ([1, 2, 3, 4, 5] ! 3) (outs ! 3)))
                            (hist_term exact 3 ([1, 2, 3, 4, 5] ! 2) (outs ! 2)))
                            (hist_term exact 4 ([1, 2, 3, 4, 5] ! 1) (outs ! 1))
              in Cheby1Lowpass_filter exact st5 s6 =
                   Some (v6, \<lparr>buf_x = [1, 2, 3, 4, 5][0 := s6], buf_y = outs[0 := v6], idx_n = 1\<rparr>)) \<and>
        (\<forall>u v s. Cheby1Lowpass_filter exact
                    (st5\<lparr>buf_x := (buf_x st5)[0 := u], buf_y := (buf_y st5)[0 := v]\<rparr>) s
                  = Cheby1Lowpass_filter exact st5 s))"
proof -
  have len: "length [1, 2, 3, 4, 5::real] = 5" by simp
  show ?thesis
    using len index_cycle_and_history[where ar = exact and ss = "[1, 2, 3, 4, 5]",
        THEN conjunct2, THEN mp, OF len]
    by (rule conjI)
qed

text \<open>
  Claim C5 as stated fails in its last part.  After the five calls with the samples
  1, 2, 3, 4, 5 the index is 0 again and slot 0 holds what the 1st call stored; the
  oldest history slot of the 6th call is slot 1, not slot 0, and replacing what the 1st
  call stored in slot 0 by other values changes nothing of the 6th call.
\<close>

theorem sixth_call_skips_first_slot:
  "(case filter_seq exact (Cheby1Lowpass_ctor exact) [1, 2, 3, 4, 5] of
      None \<Rightarrow> False
    | Some (outs, st5) \<Rightarrow>
        idx_n (Cheby1Lowpass_ctor exact) = 0 \<and> buf_x st5 ! 0 = 1 \<and> buf_y st5 ! 0 = outs ! 0 \<and>
        idx_n st5 = 0 \<and> c_rem (idx_n st5 - 4 + size_c) size_c = 1 \<and>
        Cheby1Lowpass_filter exact
          (st5\<lparr>buf_x := (buf_x st5)[0 := 100], buf_y := (buf_y st5)[0 := 100]\<rparr>) 6
        = Cheby1Lowpass_filter exact st5 6)"
proof -
  obtain v1 v2 v3 v4 v5 where run:
    "filter_seq exact (Cheby1Lowpass_ctor exact) [1, 2, 3, 4, 5] =
       Some ([v1, v2, v3, v4, v5],
             \<lparr>buf_x = [1, 2, 3, 4, 5], buf_y = [v1, v2, v3, v4, v5], idx_n = 0\<rparr>)"
    using five_calls[of exact 1 2 3 4 5] by blast
  let ?st5 = "\<lparr>buf_x = [1, 2, 3, 4, 5::real], buf_y = [v1, v2, v3, v4, v5], idx_n = 0\<rparr>"
  have v: "valid_state ?st5" by (rule valid_explicit) simp_all
  have "Cheby1Lowpass_filter exact
          (?st5\<lparr>buf_x := (buf_x ?st5)[0 := 100], buf_y := (buf_y ?st5)[0 := 100]\<rparr>) 6
        = Cheby1Lowpass_filter exact ?st5 6"
    using filter_overwrites_slot[OF v, where ar = exact and u = 100 and v = 100 and s = 6]
    by simp
  then show ?thesis
    unfolding run by (simp add: ctor_explicit c_rem_def size_c_def)
qed

subsection \<open>Several objects\<close>

lemma of_object_Cons:
  "of_object p ((q, s) # cs) = (if q = p then s # of_object p cs else of_object p cs)"
  by (simp add: of_object_def)

lemma run_calls_project:
  "run_calls ar h cs = Some (outs, h') \<Longrightarrow> h p = Some st \<Longrightarrow>
   \<exists>st'. filter_seq ar st (of_object p cs) = Some (of_object p outs, st') \<and> h' p = Some st'"
proof (induction cs arbitrary: h st outs)
  case Nil
  then show ?case by (simp add: of_object_def)
next
  case (Cons c cs)
  obtain q s where c: "c = (q, s)" by (cases c)
  from Cons.prems(1) obtain stq r st1 rs where
    hq: "h q = Some stq" and step: "Cheby1Lowpass_filter ar stq s = Some (r, st1)"
    and rest: "run_calls ar (h(q \<mapsto> st1)) cs = Some (rs, h')" and outs: "outs = (q, r) # rs"
    unfolding c by (auto simp: call_filter_def split: option.splits)
  show ?case
  proof (cases "q = p")
    case True
    then have "stq = st" using hq Cons.prems(2) by simp
    moreover obtain st' where "filter_seq ar st1 (of_object p cs) = Some (of_object p rs, st')"
      "h' p = Some st'"
      using Cons.IH[OF rest, of st1] True by auto
    ultimately show ?thesis
      using True step by (simp add: c outs of_object_Cons)
  next
    case False
    then have "(h(q \<mapsto> st1)) p = Some st" using Cons.prems(2) by simp
    from Cons.IH[OF rest this] show ?thesis
      using False by (simp add: c outs of_object_Cons)
  qed
qed

lemma call_filter_frame:
  "call_filter ar h p s = Some (r, h') \<Longrightarrow> q \<noteq> p \<Longrightarrow> h' q = h q"
  by (auto simp: call_filter_def split: option.splits)

text \<open>
  Claim C6.  Two independently constructed filter objects \<open>p\<close> and \<open>q\<close> of a store, called
  in any interleaving: when both are fed the same sample sequence they return the same
  output sequence; the outputs and the final state of an object are those of running
  its own samples alone on a fresh filter, whatever calls on other objects come in
  between; and a call on one object leaves the other as it is.
\<close>

theorem state_isolation:
  assumes "run_calls ar h cs = Some (outs, h')" and "p \<noteq> q"
    and "h p = Some (Cheby1Lowpass_ctor ar)" and "h q = Some (Cheby1Lowpass_ctor ar)"
  shows "(of_object p cs = of_object q cs \<longrightarrow> of_object p outs = of_object q outs) \<and>
         (\<exists>st'. filter_seq ar (Cheby1Lowpass_ctor ar) (of_object p cs) = Some (of_object p outs, st')
                \<and> h' p = Some st') \<and>
         (\<forall>s r h1. call_filter ar h q s = Some (r, h1) \<longrightarrow> h1 p = h p)"
proof (intro conjI impI allI)
  obtain stp where p: "filter_seq ar (Cheby1Lowpass_ctor ar) (of_object p cs) = Some (of_object p outs, stp)"
    "h' p = Some stp"
    using run_calls_project[OF assms(1,3)] by blast
  obtain stq where q: "filter_seq ar (Cheby1Lowpass_ctor ar) (of_object q cs) = Some (of_object q outs, stq)"
    using run_calls_project[OF assms(1,4)] by blast
  show "\<exists>st'. filter_seq ar (Cheby1Lowpass_ctor ar) (of_object p cs) = Some (of_object p outs, st')
                \<and> h' p = Some st'"
    using p by blast
  show "of_object p outs = of_object q outs" if "of_object p cs = of_object q cs"
    using p(1) q that by simp
next
  fix s r h1
  assume "call_filter ar h q s = Some (r, h1)"
  then show "h1 p = h p" using assms(2) by (rule call_filter_frame)
qed

lemma run_calls_total:
  "(\<And>c. c \<in> set cs \<Longrightarrow> \<exists>st. h (fst c) = Some st \<and> valid_state st) \<Longrightarrow>
   \<exists>outs h'. run_calls ar h cs = Some (outs, h')"
proof (induction cs arbitrary: h)
  case Nil
  then show ?case by simp
next
  case (Cons c cs)
  obtain q s where c: "c = (q, s)" by (cases c)
  obtain stq where hq: "h q = Some stq" "valid_state stq"
    using Cons.prems[of c] c by auto
  let ?st1 = "stq\<lparr>buf_x := (buf_x stq)[nat (idx_n stq) := s],
             buf_y := (buf_y stq)[nat (idx_n stq) := filter_value ar stq s],
             idx_n := (idx_n stq + 1) mod size_c\<rparr>"
  have step: "call_filter ar h q s = Some (filter_value ar stq s, h(q \<mapsto> ?st1))"
    using hq filter_valid[OF hq(2), of ar s] by (simp add: call_filter_def)
  have v1: "valid_state ?st1" using hq(2) by (rule filter_valid_post)
  have "\<exists>st. (h(q \<mapsto> ?st1)) (fst c') = Some st \<and> valid_state st" if "c' \<in> set cs" for c'
    using Cons.prems[of c'] that v1 by auto
  then obtain rs h' where "run_calls ar (h(q \<mapsto> ?st1)) cs = Some (rs, h')"
    using Cons.IH[of "h(q \<mapsto> ?st1)"] by blast
  then show ?case using step by (simp add: c)
qed

theorem state_isolation_witness:
  "\<exists>outs h'. run_calls exact fresh_pair example_calls = Some (outs, h') \<and> (0::nat) \<noteq> 1 \<and>
     fresh_pair 0 = Some (Cheby1Lowpass_ctor exact) \<and>
     fresh_pair 1 = Some (Cheby1Lowpass_ctor exact) \<and>
     of_object 0 example_calls = [1, 2, 3] \<and> of_object 1 example_calls = [1, 2, 3] \<and>
     of_object 0 outs = of_object 1 outs \<and>
     (\<exists>st'. filter_seq exact (Cheby1Lowpass_ctor exact) [1, 2, 3] = Some (of_object 0 outs, st')
            \<and> h' 0 = Some st')"
proof -
  have h0: "fresh_pair 0 = Some (Cheby1Lowpass_ctor exact)"
    and h1: "fresh_pair 1 = Some (Cheby1Lowpass_ctor exact)"
    by (simp_all add: fresh_pair_def)
  have ne: "(0::nat) \<noteq> 1" by simp
  have ins: "of_object 0 example_calls = [1, 2, 3]" "of_object 1 example_calls = [1, 2, 3]"
    by (simp_all add: of_object_def example_calls_def)
  have "\<exists>st. fresh_pair (fst c) = Some st \<and> valid_state st" if "c \<in> set example_calls" for c
    using that ctor_valid[of exact] by (auto simp: example_calls_def fresh_pair_def)
  then obtain outs h' where run: "run_calls exact fresh_pair example_calls = Some (outs, h')"
    using run_calls_total[of example_calls fresh_pair exact] by blast
  note iso = state_isolation[OF run ne h0 h1]
  have "of_object 0 outs = of_object 1 outs"
    using iso[THEN conjunct1] ins by simp
  moreover have "\<exists>st'. filter_seq exact (Cheby1Lowpass_ctor exact) [1, 2, 3] = Some (of_object 0 outs, st')
            \<and> h' 0 = Some st'"
    using iso[THEN conjunct2, THEN conjunct1] ins by simp
  ultimately show ?thesis using run ne h0 h1 ins by blast
qed

subsection \<open>The step response converges\<close>

lemma filter_seq_append:
  "filter_seq ar st (xs @ ys) =
     (case filter_seq ar st xs of
        None \<Rightarrow> None
      | Some (o1, st1) \<Rightarrow>
          (case filter_seq ar st1 ys of
             None \<Rightarrow> None
           | Some (o2, st2) \<Rightarrow> Some (o1 @ o2, st2)))"
  by (induction xs arbitrary: st) (auto split: option.splits)

lemma slot_lt: "nat (k mod 5) < 5"
  by simp

lemma slot_ne:
  assumes "0 \<le> n" "n < 5" "1 \<le> j" "j < 5"
  shows "nat ((n - j) mod 5) \<noteq> nat n"
  using history_index(3,4)[of n j] assms by (simp add: size_c_def nat_eq_iff)

lemma dc_level_balance:
  "c * (b_arr ! 0 + b_arr ! 1 + b_arr ! 2 + b_arr ! 3 + b_arr ! 4) =
   (c * dc_level) * (1 + a_arr ! 1 + a_arr ! 2 + a_arr ! 3 + a_arr ! 4)"
  by (simp add: dc_level_def sum_taps a_arr_def b_arr_def)

lemma filter_value_settled:
  assumes "valid_state st" "buf_x st = [c, c, c, c, c]"
  shows "fst (filter_spec st c) =
     b_arr ! 0 * c + (b_arr ! 1 * c - a_arr ! 1 * hist_y st 1)
                   + (b_arr ! 2 * c - a_arr ! 2 * hist_y st 2)
                   + (b_arr ! 3 * c - a_arr ! 3 * hist_y st 3)
                   + (b_arr ! 4 * c - a_arr ! 4 * hist_y st 4)"
proof -
  note v = valid_stateD[OF assms(1)]
  have k: "nat (idx_n st) < 5" using v(3,4) by (simp add: size_c_def)
  have x: "(buf_x st)[nat (idx_n st) := c] = [c, c, c, c, c]"
    unfolding assms(2) using k by (rule list_update_same5)
  show ?thesis
    unfolding filter_spec_def Let_def x fst_conv hist_y_def
    by (simp add: nth_same5 k sum_taps)
qed

lemma contraction_arith:
  fixes c u h1 h2 h3 h4 B :: real
  assumes "c * (b_arr ! 0 + b_arr ! 1 + b_arr ! 2 + b_arr ! 3 + b_arr ! 4)
         = u * (1 + a_arr ! 1 + a_arr ! 2 + a_arr ! 3 + a_arr ! 4)"
    and "\<bar>h1 - u\<bar> \<le> 2 * B" "\<bar>h2 - u\<bar> \<le> 4 * B" "\<bar>h3 - u\<bar> \<le> 8 * B" "\<bar>h4 - u\<bar> \<le> 16 * B"
  shows "\<bar>b_arr ! 0 * c + (b_arr ! 1 * c - a_arr ! 1 * h1) + (b_arr ! 2 * c - a_arr ! 2 * h2)
              + (b_arr ! 3 * c - a_arr ! 3 * h3) + (b_arr ! 4 * c - a_arr ! 4 * h4) - u\<bar> \<le> B"
  using assms by (simp add: a_arr_def b_arr_def algebra_simps)

lemma settled_step:
  assumes "settled c B st"
  shows "\<exists>v st'. Cheby1Lowpass_filter exact st c = Some (v, st') \<and>
           \<bar>v - c * dc_level\<bar> \<le> B \<and> settled c (B / 2) st'"
proof -
  let ?L = "c * dc_level"
  let ?n = "idx_n st"
  from assms have valid: "valid_state st" and x: "buf_x st = [c, c, c, c, c]"
    and h: "\<bar>hist_y st 1 - ?L\<bar> \<le> 2 * B" "\<bar>hist_y st 2 - ?L\<bar> \<le> 4 * B"
           "\<bar>hist_y st 3 - ?L\<bar> \<le> 8 * B" "\<bar>hist_y st 4 - ?L\<bar> \<le> 16 * B"
    by (simp_all add: settled_def)
  note vd = valid_stateD[OF valid]
  have n: "0 \<le> ?n" "?n < 5" using vd(3,4) by (simp_all add: size_c_def)
  have k: "nat ?n < 5" using n by simp
  define v where "v = filter_value exact st c"
  define st' where "st' = st\<lparr>buf_x := (buf_x st)[nat ?n := c], buf_y := (buf_y st)[nat ?n := v],
                             idx_n := (?n + 1) mod size_c\<rparr>"
  have call: "Cheby1Lowpass_filter exact st c = Some (v, st')"
    unfolding v_def st'_def by (rule filter_valid[OF valid])
  have val: "v = b_arr ! 0 * c + (b_arr ! 1 * c - a_arr ! 1 * hist_y st 1)
                   + (b_arr ! 2 * c - a_arr ! 2 * hist_y st 2)
                   + (b_arr ! 3 * c - a_arr ! 3 * hist_y st 3)
                   + (b_arr ! 4 * c - a_arr ! 4 * hist_y st 4)"
    unfolding v_def filter_value_exact[OF valid] using valid x by (rule filter_value_settled)
  have err: "\<bar>v - ?L\<bar> \<le> B"
    unfolding val using dc_level_balance[of c] h by (rule contraction_arith)
  have st': "buf_x st' = [c, c, c, c, c]" "buf_y st' = (buf_y st)[nat ?n := v]"
    "idx_n st' = (?n + 1) mod 5"
    using list_update_same5[OF k, of c]
    by (simp_all add: st'_def x size_c_def del: list_update.simps)
  have valid': "valid_state st'"
    using vd(6) by (simp add: valid_state_def st' size_c_def)
  have newest: "hist_y st' 1 = v"
    using n vd(6) by (simp add: hist_y_def st' mod_simps)
  have older: "hist_y st' (j + 1) = hist_y st j" if "1 \<le> j" "j < 5" for j
  proof -
    have "(idx_n st' - (j + 1)) mod 5 = (?n - j) mod 5"
      by (simp add: st' mod_simps)
    then show ?thesis
      using slot_ne[OF n that] by (simp add: hist_y_def st')
  qed
  have "hist_y st' 2 = hist_y st 1" "hist_y st' 3 = hist_y st 2" "hist_y st' 4 = hist_y st 3"
    using older[of 1] older[of 2] older[of 3] by simp_all
  then have "settled c (B / 2) st'"
    using valid' st'(1) newest err h by (simp add: settled_def)
  then show ?thesis using call err by blast
qed

lemma settled_run:
  "settled c B st \<Longrightarrow>
   \<exists>outs st'. filter_seq exact st (replicate m c) = Some (outs, st') \<and> settled c (B / 2 ^ m) st'"
proof (induction m arbitrary: B st)
  case 0
  then show ?case by simp
next
  case (Suc m)
  obtain v st1 where step: "Cheby1Lowpass_filter exact st c = Some (v, st1)"
    and s1: "settled c (B / 2) st1"
    using settled_step[OF Suc.prems] by blast
  obtain outs st' where "filter_seq exact st1 (replicate m c) = Some (outs, st')"
    "settled c (B / 2 / 2 ^ m) st'"
    using Suc.IH[OF s1] by blast
  then show ?case using step by simp
qed

lemma replicate_split:
  "replicate (Suc (m + 5)) c = [c, c, c, c, c] @ (replicate m c @ [c])"
proof -
  have "Suc (m + 5) = 5 + Suc m" by simp
  then have "replicate (Suc (m + 5)) c = replicate 5 c @ replicate (Suc m) c"
    by (simp only: replicate_add)
  moreover have "replicate 5 c = [c, c, c, c, c]" by (simp add: numeral_eq_Suc)
  moreover have "replicate (Suc m) c = replicate m c @ [c]"
    by (simp add: replicate_append_same)
  ultimately show ?thesis by simp
qed

lemma step_response_settles:
  "\<exists>B. \<forall>m. \<bar>step_response c (m + 5) - c * dc_level\<bar> \<le> B / 2 ^ m"
proof -
  let ?L = "c * dc_level"
  obtain v1 v2 v3 v4 v5 where five:
    "filter_seq exact (Cheby1Lowpass_ctor exact) [c, c, c, c, c] =
       Some ([v1, v2, v3, v4, v5],
             \<lparr>buf_x = [c, c, c, c, c], buf_y = [v1, v2, v3, v4, v5], idx_n = 0\<rparr>)"
    using five_calls[of exact c c c c c] by blast
  let ?st5 = "\<lparr>buf_x = [c, c, c, c, c], buf_y = [v1, v2, v3, v4, v5], idx_n = 0\<rparr>"
  define B where "B = \<bar>v1 - ?L\<bar> + \<bar>v2 - ?L\<bar> + \<bar>v3 - ?L\<bar> + \<bar>v4 - ?L\<bar> + \<bar>v5 - ?L\<bar>"
  have s5: "settled c B ?st5"
    unfolding settled_def hist_y_def B_def
    by (simp add: valid_explicit)
  have "\<bar>step_response c (m + 5) - ?L\<bar> \<le> B / 2 ^ m" for m
  proof -
    obtain outs st' where run: "filter_seq exact ?st5 (replicate m c) = Some (outs, st')"
      and s: "settled c (B / 2 ^ m) st'"
      using settled_run[OF s5, of m] by blast
    obtain v st'' where step: "Cheby1Lowpass_filter exact st' c = Some (v, st'')"
      and err: "\<bar>v - ?L\<bar> \<le> B / 2 ^ m"
      using settled_step[OF s] by blast
    have "filter_seq exact (Cheby1Lowpass_ctor exact) (replicate (Suc (m + 5)) c) =
        Some ([v1, v2, v3, v4, v5] @ (outs @ [v]), st'')"
      unfolding replicate_split filter_seq_append five
      by (simp add: run step)
    then have "step_response c (m + 5) = v"
      by (simp add: step_response_def)
    then show ?thesis using err by simp
  qed
  then show ?thesis by blast
qed

lemma step_response_converges:
  "(\<lambda>k. step_response c k) \<longlonglongrightarrow> c * dc_level"
proof -
  obtain B where bound: "\<And>m. \<bar>step_response c (m + 5) - c * dc_level\<bar> \<le> B / 2 ^ m"
    using step_response_settles[of c] by blast
  have "(\<lambda>m. B / 2 ^ m) \<longlonglongrightarrow> 0"
    by (rule LIMSEQ_divide_realpow_zero) simp
  then have "(\<lambda>m. step_response c (m + 5) - c * dc_level) \<longlonglongrightarrow> 0"
  proof (rule tendsto_0_le[where K = 1])
    show "\<forall>\<^sub>F m in sequentially.
        norm (step_response c (m + 5) - c * dc_level) \<le> norm (B / 2 ^ m) * 1"
    proof (rule always_eventually, rule allI)
      fix m
      have "\<bar>step_response c (m + 5) - c * dc_level\<bar> \<le> B / 2 ^ m" by (rule bound)
      also have "\<dots> \<le> \<bar>B / 2 ^ m\<bar>" by (rule abs_ge_self)
      finally show "norm (step_response c (m + 5) - c * dc_level) \<le> norm (B / 2 ^ m) * 1"
        by simp
    qed
  qed
  then have "(\<lambda>m. step_response c (m + 5)) \<longlonglongrightarrow> c * dc_level"
    by (simp only: LIM_zero_iff)
  then show ?thesis by (rule LIMSEQ_offset)
qed

lemma dc_level_value:
  "dc_level \<noteq> sum_list b_arr / sum_list a_arr" "\<bar>dc_level\<bar> < 0.007"
  by (simp_all add: dc_level_def sum_taps a_arr_def b_arr_def)

text \<open>
  Claim C9 says that the response to a constant input \<open>c\<close> converges to
  \<open>c * (\<Sum>b / \<Sum>a)\<close>, the sum of the feed-forward coefficients over the sum of the feedback
  coefficients.  The response of the source does converge, for every \<open>c\<close>, so it neither
  diverges nor oscillates without bound; but its limit is
  \<open>c * (\<Sum>b / (1 + a[1] + a[2] + a[3] + a[4]))\<close>, which is below \<open>0.007 * c\<close>, while
  \<open>\<Sum>b / \<Sum>a\<close> is above 0.999: the two agree only when \<open>a[0] = 1\<close>, and the array \<^verbatim>\<open>a\<close>
  of the source begins with 0.000416599204407.  For \<open>c = 1\<close> the response does not
  converge to \<open>\<Sum>b / \<Sum>a\<close>.
\<close>

theorem step_response_limit:
  "(\<lambda>k. step_response c k) \<longlonglongrightarrow> c * (sum_list b_arr / (1 + (\<Sum>i = 1..4. a_arr ! i))) \<and>
   sum_list b_arr / (1 + (\<Sum>i = 1..4. a_arr ! i)) < 0.007 \<and>
   0.999 < sum_list b_arr / sum_list a_arr \<and>
   \<not> (\<lambda>k. step_response 1 k) \<longlonglongrightarrow> 1 * (sum_list b_arr / sum_list a_arr)"
proof (intro conjI)
  show "(\<lambda>k. step_response c k) \<longlonglongrightarrow> c * (sum_list b_arr / (1 + (\<Sum>i = 1..4. a_arr ! i)))"
    using step_response_converges[of c] by (simp only: dc_level_def)
  show "sum_list b_arr / (1 + (\<Sum>i = 1..4. a_arr ! i)) < 0.007"
    by (simp add: sum_taps a_arr_def b_arr_def)
  show "0.999 < sum_list b_arr / sum_list a_arr"
    by (simp add: a_arr_def b_arr_def)
  show "\<not> (\<lambda>k. step_response 1 k) \<longlonglongrightarrow> 1 * (sum_list b_arr / sum_list a_arr)"
  proof
    assume "(\<lambda>k. step_response 1 k) \<longlonglongrightarrow> 1 * (sum_list b_arr / sum_list a_arr)"
    then have "1 * (sum_list b_arr / sum_list a_arr) = 1 * dc_level"
      using step_response_converges[of 1] by (rule LIMSEQ_unique)
    then show False using dc_level_value(1) by simp
  qed
qed

end
